theory Spec2Isabelle
  imports Complex_Main "HOL-Library.Sublist" "HOL-Library.Multiset"
    "HOL-Library.List_Lexorder" "HOL-Library.Char_ord"
begin

section \<open>Data model of the gap-mining engine (src/mining.py)\<close>

text \<open>
  A pandas DataFrame is a list of column labels and a list of rows; a row maps a column
  label to its cell.  The one-hot columns hold booleans, the \<open>id\<close> column holds the
  requirement identifier (a string in this repository: \<open>REQ-...\<close>).
\<close>

datatype cell = CBool bool | CStr string

type_synonym row = "string \<rightharpoonup> cell"

record dataframe =
  columns :: "string list"
  rows :: "row list"

text \<open>Every row of a frame has exactly the frame's columns, and labels are unique.\<close>

definition wf_frame :: "dataframe \<Rightarrow> bool" where
  "wf_frame df = (distinct (columns df) \<and> list_all (\<lambda>r. dom r = set (columns df)) (rows df))"

text \<open>Exceptions of the Python code are values of the result type.\<close>

datatype error = KeyError | ValueError | TypeError | FloatNonFinite

text \<open>
  A row of the rules frame that \<open>association_rules\<close> returns.  A frozenset of column
  labels is the list of its elements, without repetition; the order in which a process
  iterates over it follows the hash seed of that process and is applied by \<open>present\<close>
  below.  The floating-point metrics are rationals (the further metric columns of the
  library, lift, leverage and so on, are never read by src/mining.py and are left out).
\<close>

record rule =
  antecedents :: "string list"
  consequents :: "string list"
  support :: rat
  confidence :: rat

text \<open>The rules frame after \<open>rules['consequents_str'] = ...\<close> has one more column.\<close>

record srule = rule +
  consequents_str :: string

text \<open>The dictionary appended to \<open>exceptions\<close>; keys \<open>id\<close>, \<open>violated_rule\<close>, \<open>confidence\<close>.\<close>

record gap =
  gap_id :: cell
  violated_rule :: string
  gap_confidence :: rat

section \<open>Python's \<open>repr\<close> and \<open>str\<close> on strings, lists and frozensets\<close>

definition hex_digit :: "nat \<Rightarrow> char" where
  "hex_digit n = ''0123456789abcdef'' ! (n mod 16)"

text \<open>
  One character of \<open>repr(s)\<close> with quote character \<open>q\<close>; a character is a code point up
  to U+00FF.  The quote and the backslash are escaped, tab, newline and carriage return
  have their letters, and the other code points that Python does not print (the controls
  below 0x20, 0x7F to 0xA0, and 0xAD) are \<open>\xNN\<close>.
\<close>

definition py_escape :: "char \<Rightarrow> char \<Rightarrow> string" where
  "py_escape q c =
     (if c = q \<or> c = CHR 0x5C then [CHR 0x5C, c]
      else if c = CHR 0x09 then [CHR 0x5C, CHR ''t'']
      else if c = CHR 0x0A then [CHR 0x5C, CHR ''n'']
      else if c = CHR 0x0D then [CHR 0x5C, CHR ''r'']
      else if (of_char c :: nat) < 32 \<or> (127 \<le> (of_char c :: nat) \<and> (of_char c :: nat) \<le> 160)
              \<or> c = CHR 0xAD
        then [CHR 0x5C, CHR ''x'', hex_digit (of_char c div 16), hex_digit (of_char c mod 16)]
      else [c])"

text \<open>\<open>repr\<close> uses single quotes unless the string has a single and no double quote.\<close>

definition py_repr :: "string \<Rightarrow> string" where
  "py_repr s =
     (let q = (if CHR 0x27 \<in> set s \<and> CHR 0x22 \<notin> set s then CHR 0x22 else CHR 0x27)
      in q # concat (map (py_escape q) s) @ [q])"

fun py_join :: "string \<Rightarrow> string list \<Rightarrow> string" where
  "py_join sep [] = []"
| "py_join sep [x] = x"
| "py_join sep (x # y # ys) = x @ sep @ py_join sep (y # ys)"

definition py_str_list :: "string list \<Rightarrow> string" where
  "py_str_list xs = ''['' @ py_join '', '' (map py_repr xs) @ '']''"

definition py_str_frozenset :: "string list \<Rightarrow> string" where
  "py_str_frozenset xs =
     (if xs = [] then ''frozenset()''
      else ''frozenset({'' @ py_join '', '' (map py_repr xs) @ ''})'')"

section \<open>find_exceptions (src/mining.py, lines 94-133)\<close>

text \<open>\<open>d[d[item] == v]\<close>: boolean indexing keeps the rows whose cell equals \<open>v\<close>.\<close>

definition select_eq :: "dataframe \<Rightarrow> string \<Rightarrow> bool \<Rightarrow> dataframe" where
  "select_eq d item v = d\<lparr>rows := filter (\<lambda>r. r item = Some (CBool v)) (rows d)\<rparr>"

text \<open>
  The two inner loops \<open>for item in ...: if item in df.columns: cur = cur[cur[item] == v]\<close>,
  with \<open>v = True\<close> for the antecedents and \<open>v = False\<close> for the consequents.
\<close>

fun filter_items :: "dataframe \<Rightarrow> bool \<Rightarrow> string list \<Rightarrow> dataframe \<Rightarrow> dataframe" where
  "filter_items df v [] cur = cur"
| "filter_items df v (item # items) cur =
     filter_items df v items (if item \<in> set (columns df) then select_eq cur item v else cur)"

definition rule_text :: "string list \<Rightarrow> string list \<Rightarrow> string" where
  "rule_text ants cons = ''Rule: IF '' @ py_str_list ants @ '' THEN '' @ py_str_list cons"

text \<open>
  \<open>for i, violation in df_violation.iterrows(): exceptions.append({...})\<close>.
  \<open>violation['id']\<close> raises KeyError when the row has no \<open>id\<close> label.
\<close>

fun append_violations ::
  "'a rule_scheme \<Rightarrow> row list \<Rightarrow> gap list \<Rightarrow> error + gap list" where
  "append_violations rule [] exceptions = Inr exceptions"
| "append_violations rule (violation # rest) exceptions =
     (case violation ''id'' of
        None \<Rightarrow> Inl KeyError
      | Some i \<Rightarrow>
          append_violations rule rest
            (exceptions @ [\<lparr>gap_id = i,
                            violated_rule = rule_text (antecedents rule) (consequents rule),
                            gap_confidence = confidence rule\<rparr>]))"

text \<open>\<open>for index, rule in rules.iterrows(): ...\<close>\<close>

fun rules_loop :: "dataframe \<Rightarrow> 'a rule_scheme list \<Rightarrow> gap list \<Rightarrow> error + gap list" where
  "rules_loop df [] exceptions = Inr exceptions"
| "rules_loop df (rule # rest) exceptions =
     (let df_antecedent = filter_items df True (antecedents rule) df;
          df_violation = filter_items df False (consequents rule) df_antecedent
      in case append_violations rule (rows df_violation) exceptions of
           Inl e \<Rightarrow> Inl e
         | Inr exceptions' \<Rightarrow> rules_loop df rest exceptions')"

definition find_exceptions :: "dataframe \<Rightarrow> 'a rule_scheme list \<Rightarrow> error + gap list" where
  "find_exceptions df rules = rules_loop df rules []"

section \<open>The library calls of discover_rules\<close>

text \<open>
  \<open>df.drop(columns=labels)\<close> of pandas: a new frame without the given columns; KeyError
  when a label is not a column.
\<close>

definition drop_columns :: "dataframe \<Rightarrow> string list \<Rightarrow> error + dataframe" where
  "drop_columns df labels =
     (if \<not> set labels \<subseteq> set (columns df) then Inl KeyError
      else Inr \<lparr>columns = filter (\<lambda>c. c \<notin> set labels) (columns df),
                rows = map (\<lambda>r. r |` (- set labels)) (rows df)\<rparr>)"

text \<open>The frame of frequent itemsets: one (support, itemset) pair per row.\<close>

type_synonym itemsets = "(rat \<times> string list) list"

definition all_boolean :: "dataframe \<Rightarrow> bool" where
  "all_boolean df =
     list_all (\<lambda>r. list_all (\<lambda>c. case r c of Some (CBool b) \<Rightarrow> True | _ \<Rightarrow> False) (columns df))
       (rows df)"

definition contains_all :: "string list \<Rightarrow> row \<Rightarrow> bool" where
  "contains_all items r = list_all (\<lambda>i. r i = Some (CBool True)) items"

text \<open>
  Support of an itemset: the fraction of rows where every column of the itemset is true.
  On a frame without rows the library divides by zero and gets NaN, which clears no
  threshold; the value 0 stands for it.
\<close>

definition itemset_support :: "dataframe \<Rightarrow> string list \<Rightarrow> rat" where
  "itemset_support df items =
     (if rows df = [] then 0
      else of_nat (length (filter (contains_all items) (rows df))) / of_nat (length (rows df)))"

text \<open>
  Modelled from the spec: \<open>apriori\<close> is mlxtend's function, not under src/.  Spec 4.2,
  step 1: all column subsets whose support is at least the minimum support; an itemset
  has at least one item.  Non-boolean cells are malformed input and fail fast
  (ValueError).
\<close>

definition apriori :: "dataframe \<Rightarrow> rat \<Rightarrow> error + itemsets" where
  "apriori df min_support =
     (if \<not> all_boolean df then Inl ValueError
      else Inr (map (\<lambda>s. (itemset_support df s, s))
                 (filter (\<lambda>s. s \<noteq> [] \<and> min_support \<le> itemset_support df s)
                    (subseqs (columns df)))))"

text \<open>Looking an itemset up in the itemsets frame; frozensets are equal as sets.\<close>

definition lookup_support :: "itemsets \<Rightarrow> string list \<Rightarrow> rat option" where
  "lookup_support fi s = map_option fst (find (\<lambda>(sup, k). set k = set s) fi)"

text \<open>
  Spec 4.2, step 2: all splits of an itemset into a non-empty antecedent and a non-empty
  consequent, disjoint, whose union is the itemset.
\<close>

definition splits :: "string list \<Rightarrow> (string list \<times> string list) list" where
  "splits k =
     filter (\<lambda>(a, c). a \<noteq> [] \<and> c \<noteq> [])
       (map (\<lambda>a. (a, filter (\<lambda>x. x \<notin> set a) k)) (subseqs k))"

text \<open>
  One candidate rule: confidence is support(antecedent + consequent) / support(antecedent),
  both supports read from the itemsets frame.  A missing itemset is a KeyError; a zero
  support of the antecedent would give a non-finite float, outside the rationals.
\<close>

definition rule_of_split ::
  "itemsets \<Rightarrow> rat \<Rightarrow> rat \<Rightarrow> string list \<times> string list \<Rightarrow> error + rule list" where
  "rule_of_split fi min_threshold sAC ac =
     (case lookup_support fi (fst ac) of
        None \<Rightarrow> Inl KeyError
      | Some sA \<Rightarrow>
          (case lookup_support fi (snd ac) of
             None \<Rightarrow> Inl KeyError
           | Some sC \<Rightarrow>
               if sA = 0 then Inl FloatNonFinite
               else if min_threshold \<le> sAC / sA
                 then Inr [\<lparr>antecedents = fst ac, consequents = snd ac,
                            support = sAC, confidence = sAC / sA\<rparr>]
               else Inr []))"

text \<open>Running a fallible step over a list and appending the results; the first error stops it.\<close>

fun collect :: "('a \<Rightarrow> error + 'b list) \<Rightarrow> 'a list \<Rightarrow> error + 'b list" where
  "collect f [] = Inr []"
| "collect f (x # xs) =
     (case f x of
        Inl e \<Rightarrow> Inl e
      | Inr ys \<Rightarrow> (case collect f xs of Inl e \<Rightarrow> Inl e | Inr zs \<Rightarrow> Inr (ys @ zs)))"

text \<open>
  Modelled from the spec: \<open>association_rules\<close> is mlxtend's function, not under src/.
  Spec 4.2, step 2: from each frequent itemset of size at least 2, every split whose
  confidence is at least the threshold.  An empty itemsets frame is rejected (ValueError),
  which is why discover_rules tests \<open>frequent_itemsets.empty\<close> first.
\<close>

definition association_rules :: "itemsets \<Rightarrow> rat \<Rightarrow> error + rule list" where
  "association_rules fi min_threshold =
     (if fi = [] then Inl ValueError
      else collect (\<lambda>(sAC, k). collect (rule_of_split fi min_threshold sAC) (splits k))
             (filter (\<lambda>(sAC, k). 2 \<le> length k) fi))"

section \<open>discover_rules (src/mining.py, lines 52-92)\<close>

text \<open>The literal \<open>"frozenset({'HAS_TEST'})"\<close> of line 84.\<close>

definition has_test_str :: string where
  "has_test_str = ''frozenset({'' @ CHR 0x27 # ''HAS_TEST'' @ CHR 0x27 # ''})''"

text \<open>\<open>rules['consequents_str'] = rules['consequents'].astype(str)\<close>\<close>

definition add_consequents_str :: "rule \<Rightarrow> srule" where
  "add_consequents_str r =
     \<lparr>antecedents = antecedents r, consequents = consequents r, support = support r,
      confidence = confidence r, consequents_str = py_str_frozenset (consequents r)\<rparr>"

text \<open>An empty \<open>pd.DataFrame()\<close> and a rules frame without rows are both the empty list.\<close>

definition discover_rules :: "dataframe \<Rightarrow> error + srule list" where
  "discover_rules df =
     (case drop_columns df [''id''] of
        Inl e \<Rightarrow> Inl e
      | Inr df_mining \<Rightarrow>
          (case apriori df_mining (1 / 100) of
             Inl e \<Rightarrow> Inl e
           | Inr frequent_itemsets \<Rightarrow>
               if frequent_itemsets = [] then Inr []
               else
                 (case association_rules frequent_itemsets (1 / 2) of
                    Inl e \<Rightarrow> Inl e
                  | Inr rules \<Rightarrow>
                      if rules = [] then Inr []
                      else
                        (let rules' = map add_consequents_str rules;
                             rules_about_testing =
                               filter (\<lambda>r. consequents_str r = has_test_str) rules'
                         in if rules_about_testing = [] then Inr []
                            else Inr rules_about_testing))))"

section \<open>Vocabulary of the statements\<close>

text \<open>
  A feature table as extract_features_for_mining produces it: a well-formed frame with the
  \<open>id\<close> column whose other cells are all boolean.
\<close>

definition feature_table :: "dataframe \<Rightarrow> bool" where
  "feature_table df =
     (wf_frame df \<and> ''id'' \<in> set (columns df) \<and>
      list_all (\<lambda>r. list_all (\<lambda>c. c = ''id'' \<or> (case r c of Some (CBool b) \<Rightarrow> True | _ \<Rightarrow> False))
                       (columns df)) (rows df))"

text \<open>Row \<open>r\<close> has the value \<open>v\<close> in every item that is a column of the table.\<close>

definition matches :: "dataframe \<Rightarrow> bool \<Rightarrow> string list \<Rightarrow> row \<Rightarrow> bool" where
  "matches df v items r = list_all (\<lambda>i. i \<in> set (columns df) \<longrightarrow> r i = Some (CBool v)) items"

text \<open>The rows that find_exceptions reports for one rule.\<close>

definition violations :: "dataframe \<Rightarrow> 'a rule_scheme \<Rightarrow> row list" where
  "violations df rule =
     filter (\<lambda>r. matches df True (antecedents rule) r \<and> matches df False (consequents rule) r)
       (rows df)"

text \<open>The gap record of a rule and a row: identifier, statement of the rule, confidence.\<close>

definition gap_of :: "'a rule_scheme \<Rightarrow> row \<Rightarrow> gap" where
  "gap_of rule r =
     \<lparr>gap_id = the (r ''id''),
      violated_rule = rule_text (antecedents rule) (consequents rule),
      gap_confidence = confidence rule\<rparr>"

text \<open>
  The spec's words for a violation (P5): every antecedent column of the rule is true on the
  row and HAS_TEST is false on the row.
\<close>

definition spec_violation :: "'a rule_scheme \<Rightarrow> row \<Rightarrow> bool" where
  "spec_violation rule r =
     (list_all (\<lambda>a. r a = Some (CBool True)) (antecedents rule) \<and>
      r ''HAS_TEST'' = Some (CBool False))"

subsection \<open>The table of scenario E2E-2\<close>

definition e2e2_row :: "string \<Rightarrow> bool \<Rightarrow> bool \<Rightarrow> row" where
  "e2e2_row i risk test =
     [''HAS_RISK'' \<mapsto> CBool risk, ''HAS_TEST'' \<mapsto> CBool test,
      ''NO_RISK'' \<mapsto> CBool (\<not> risk), ''NO_TEST'' \<mapsto> CBool (\<not> test), ''id'' \<mapsto> CStr i]"

text \<open>Nine rows with risk and test, one with risk and no test, five with neither.\<close>

definition e2e2_table :: dataframe where
  "e2e2_table =
     \<lparr>columns = [''HAS_RISK'', ''HAS_TEST'', ''NO_RISK'', ''NO_TEST'', ''id''],
      rows =
        map (\<lambda>i. e2e2_row i True True)
          [''R1'', ''R2'', ''R3'', ''R4'', ''R5'', ''R6'', ''R7'', ''R8'', ''R9'']
        @ [e2e2_row ''R10'' True False]
        @ map (\<lambda>i. e2e2_row i False False) [''R11'', ''R12'', ''R13'', ''R14'', ''R15'']\<rparr>"

definition e2e2_rule :: srule where
  "e2e2_rule =
     \<lparr>antecedents = [''HAS_RISK''], consequents = [''HAS_TEST''], support = 3 / 5,
      confidence = 9 / 10, consequents_str = has_test_str\<rparr>"

section \<open>extract_features_for_mining (src/mining.py, lines 6-50)\<close>

text \<open>
  One record of the answer of \<open>run_query\<close>: the fields \<open>id\<close>, \<open>text\<close>, \<open>test_status\<close>,
  \<open>code_status\<close> and \<open>risk_status\<close> of the Cypher query's RETURN clause.
\<close>

record query_record =
  rec_id :: string
  rec_text :: string
  test_status :: string
  code_status :: string
  risk_status :: string

text \<open>The basket appended to \<open>transactions\<close> for one record.\<close>

definition transaction :: "query_record \<Rightarrow> string list" where
  "transaction record = [test_status record, code_status record, risk_status record]"

text \<open>
  \<open>TransactionEncoder.fit\<close>: the columns are the distinct items of all transactions, sorted.
  \<open>transform\<close>: one boolean per column, true when the item is in the transaction.
\<close>

definition te_fit :: "string list list \<Rightarrow> string list" where
  "te_fit transactions = sort (remdups (concat transactions))"

definition te_transform :: "string list \<Rightarrow> string list \<Rightarrow> row" where
  "te_transform cols t = map_of (map (\<lambda>c. (c, CBool (c \<in> set t))) cols)"

text \<open>\<open>df['id'] = [...]\<close> replaces a column of that label or appends a new one.\<close>

definition set_id_column :: "string list \<Rightarrow> string list" where
  "set_id_column cols = (if ''id'' \<in> set cols then cols else cols @ [''id''])"

fun text_map_loop :: "query_record list \<Rightarrow> (string \<rightharpoonup> string) \<Rightarrow> (string \<rightharpoonup> string)" where
  "text_map_loop [] text_map = text_map"
| "text_map_loop (record # rest) text_map =
     text_map_loop rest (text_map(rec_id record \<mapsto> rec_text record))"

definition extract_features_for_mining ::
  "query_record list \<Rightarrow> dataframe \<times> (string \<rightharpoonup> string)" where
  "extract_features_for_mining data =
     (let transactions = map transaction data;
          text_map = text_map_loop data Map.empty;
          cols = te_fit transactions;
          df = \<lparr>columns = set_id_column cols,
                rows = map (\<lambda>record. (te_transform cols (transaction record))
                                        (''id'' \<mapsto> CStr (rec_id record))) data\<rparr>
      in (df, text_map))"

text \<open>The two-valued domains of the three status fields (spec, section 3).\<close>

definition status_domains :: "query_record \<Rightarrow> bool" where
  "status_domains record =
     (test_status record \<in> {''HAS_TEST'', ''NO_TEST''} \<and>
      code_status record \<in> {''HAS_CODE'', ''NO_CODE''} \<and>
      risk_status record \<in> {''HAS_RISK'', ''NO_RISK''})"

text \<open>Exactly one of the two columns is true on the row.\<close>

definition exactly_one :: "row \<Rightarrow> string \<Rightarrow> string \<Rightarrow> bool" where
  "exactly_one r a b = ((r a = Some (CBool True)) \<noteq> (r b = Some (CBool True)))"

subsection \<open>Requirements for the scenarios E2E-1 and E2E-4\<close>

definition requirement :: "string \<Rightarrow> string \<Rightarrow> string \<Rightarrow> string \<Rightarrow> query_record" where
  "requirement i t c k =
     \<lparr>rec_id = i, rec_text = ''The system shall comply.'', test_status = t, code_status = c,
      risk_status = k\<rparr>"

text \<open>E2E-1: eight requirements with code and without test, two with code and test.\<close>

definition e2e1_data :: "query_record list" where
  "e2e1_data =
     map (\<lambda>i. requirement i ''NO_TEST'' ''HAS_CODE'' ''NO_RISK'')
       [''R1'', ''R2'', ''R3'', ''R4'', ''R5'', ''R6'', ''R7'', ''R8'']
     @ map (\<lambda>i. requirement i ''HAS_TEST'' ''HAS_CODE'' ''NO_RISK'') [''R9'', ''R10'']"

text \<open>E2E-4: two requirements with test, code and risk, one with code and risk only.\<close>

definition e2e4_data :: "query_record list" where
  "e2e4_data =
     [requirement ''R1'' ''HAS_TEST'' ''HAS_CODE'' ''HAS_RISK'',
      requirement ''R2'' ''HAS_TEST'' ''HAS_CODE'' ''HAS_RISK'',
      requirement ''R3'' ''NO_TEST'' ''HAS_CODE'' ''HAS_RISK'']"

text \<open>A table where no requirement has a test, so that the HAS_TEST column is absent.\<close>

definition untested_data :: "query_record list" where
  "untested_data =
     [requirement ''R1'' ''NO_TEST'' ''HAS_CODE'' ''HAS_RISK'',
      requirement ''R2'' ''NO_TEST'' ''HAS_CODE'' ''NO_RISK'']"

definition e2e1_table :: dataframe where
  "e2e1_table = fst (extract_features_for_mining e2e1_data)"


definition untested_table :: dataframe where
  "untested_table = fst (extract_features_for_mining untested_data)"



text \<open>E2E-3: no requirement at all.\<close>

definition empty_table :: dataframe where
  "empty_table = fst (extract_features_for_mining [])"

section \<open>The objects of a run: an explicit store\<close>

text \<open>
  Python variables hold references.  The store maps an address to the object it holds; a
  fresh object gets the address \<open>lim\<close>, and every allocated address is below \<open>lim\<close>.
  A reference to an object of the wrong kind is a TypeError.
\<close>

type_synonym addr = nat

datatype obj =
  Frame dataframe
| Itemsets itemsets
| Rules "rule list"
| SRules "srule list"
| Gaps "gap list"

record heap =
  objs :: "addr \<rightharpoonup> obj"
  lim :: addr

definition bind_h ::
  "(heap \<Rightarrow> (error + 'a) \<times> heap) \<Rightarrow> ('a \<Rightarrow> heap \<Rightarrow> (error + 'b) \<times> heap) \<Rightarrow>
   heap \<Rightarrow> (error + 'b) \<times> heap" where
  "bind_h m f h = (case m h of (Inl e, h') \<Rightarrow> (Inl e, h') | (Inr x, h') \<Rightarrow> f x h')"

definition alloc :: "obj \<Rightarrow> heap \<Rightarrow> (error + addr) \<times> heap" where
  "alloc v h = (Inr (lim h), h\<lparr>objs := (objs h)(lim h \<mapsto> v), lim := Suc (lim h)\<rparr>)"

text \<open>An update in place: the object at the address is replaced.\<close>

definition put :: "addr \<Rightarrow> obj \<Rightarrow> heap \<Rightarrow> (error + unit) \<times> heap" where
  "put a v h = (Inr (), h\<lparr>objs := (objs h)(a \<mapsto> v)\<rparr>)"

definition get_frame :: "addr \<Rightarrow> heap \<Rightarrow> (error + dataframe) \<times> heap" where
  "get_frame a h = (case objs h a of Some (Frame d) \<Rightarrow> (Inr d, h) | _ \<Rightarrow> (Inl TypeError, h))"

definition get_itemsets :: "addr \<Rightarrow> heap \<Rightarrow> (error + itemsets) \<times> heap" where
  "get_itemsets a h = (case objs h a of Some (Itemsets fi) \<Rightarrow> (Inr fi, h) | _ \<Rightarrow> (Inl TypeError, h))"

definition get_rules :: "addr \<Rightarrow> heap \<Rightarrow> (error + rule list) \<times> heap" where
  "get_rules a h = (case objs h a of Some (Rules rs) \<Rightarrow> (Inr rs, h) | _ \<Rightarrow> (Inl TypeError, h))"

definition get_srules :: "addr \<Rightarrow> heap \<Rightarrow> (error + srule list) \<times> heap" where
  "get_srules a h = (case objs h a of Some (SRules rs) \<Rightarrow> (Inr rs, h) | _ \<Rightarrow> (Inl TypeError, h))"

definition get_gaps :: "addr \<Rightarrow> heap \<Rightarrow> (error + gap list) \<times> heap" where
  "get_gaps a h = (case objs h a of Some (Gaps gs) \<Rightarrow> (Inr gs, h) | _ \<Rightarrow> (Inl TypeError, h))"

text \<open>Lifting a library call that raises or returns a value without touching the store.\<close>

definition lift_h :: "error + 'a \<Rightarrow> heap \<Rightarrow> (error + 'a) \<times> heap" where
  "lift_h r h = (r, h)"

subsection \<open>discover_rules on the store\<close>

text \<open>
  \<open>drop\<close>, \<open>apriori\<close>, \<open>association_rules\<close> and boolean indexing return new objects;
  \<open>rules['consequents_str'] = ...\<close> changes the rules frame in place.
\<close>

definition discover_rules_h :: "addr \<Rightarrow> heap \<Rightarrow> (error + addr) \<times> heap" where
  "discover_rules_h df =
     bind_h (get_frame df) (\<lambda>d.
     bind_h (lift_h (drop_columns d [''id''])) (\<lambda>dm.
     bind_h (alloc (Frame dm)) (\<lambda>df_mining.
     bind_h (get_frame df_mining) (\<lambda>dm'.
     bind_h (lift_h (apriori dm' (1 / 100))) (\<lambda>fi.
     bind_h (alloc (Itemsets fi)) (\<lambda>frequent_itemsets.
     bind_h (get_itemsets frequent_itemsets) (\<lambda>fi'.
       if fi' = [] then alloc (SRules [])
       else
         bind_h (lift_h (association_rules fi' (1 / 2))) (\<lambda>rs.
         bind_h (alloc (Rules rs)) (\<lambda>rules.
         bind_h (get_rules rules) (\<lambda>rs'.
           if rs' = [] then alloc (SRules [])
           else
             bind_h (put rules (SRules (map add_consequents_str rs'))) (\<lambda>_.
             bind_h (get_srules rules) (\<lambda>rs''.
             bind_h (alloc (SRules (filter (\<lambda>r. consequents_str r = has_test_str) rs'')))
               (\<lambda>rules_about_testing.
             bind_h (get_srules rules_about_testing) (\<lambda>rat.
               if rat = [] then alloc (SRules [])
               else lift_h (Inr rules_about_testing)))))))))))))))"

subsection \<open>find_exceptions on the store\<close>

text \<open>\<open>cur = cur[cur[item] == v]\<close> binds \<open>cur\<close> to a new frame; \<open>df\<close> is only read.\<close>

fun filter_items_h ::
  "addr \<Rightarrow> bool \<Rightarrow> string list \<Rightarrow> addr \<Rightarrow> heap \<Rightarrow> (error + addr) \<times> heap" where
  "filter_items_h df v [] cur h = (Inr cur, h)"
| "filter_items_h df v (item # items) cur h =
     bind_h (get_frame df) (\<lambda>d.
       if item \<in> set (columns d)
       then bind_h (get_frame cur) (\<lambda>c.
            bind_h (alloc (Frame (select_eq c item v))) (\<lambda>cur' h'.
              filter_items_h df v items cur' h'))
       else (\<lambda>h'. filter_items_h df v items cur h')) h"

text \<open>\<open>exceptions.append(...)\<close> changes the list object in place.\<close>

fun append_violations_h ::
  "'a rule_scheme \<Rightarrow> row list \<Rightarrow> addr \<Rightarrow> heap \<Rightarrow> (error + unit) \<times> heap" where
  "append_violations_h rule [] exceptions h = (Inr (), h)"
| "append_violations_h rule (violation # rest) exceptions h =
     (case violation ''id'' of
        None \<Rightarrow> (Inl KeyError, h)
      | Some i \<Rightarrow>
          bind_h (get_gaps exceptions) (\<lambda>gs.
          bind_h (put exceptions
                    (Gaps (gs @ [\<lparr>gap_id = i,
                                  violated_rule = rule_text (antecedents rule) (consequents rule),
                                  gap_confidence = confidence rule\<rparr>]))) (\<lambda>_ h'.
            append_violations_h rule rest exceptions h')) h)"

fun rules_loop_h ::
  "addr \<Rightarrow> 'a rule_scheme list \<Rightarrow> addr \<Rightarrow> heap \<Rightarrow> (error + addr) \<times> heap" where
  "rules_loop_h df [] exceptions h = (Inr exceptions, h)"
| "rules_loop_h df (rule # rest) exceptions h =
     bind_h (filter_items_h df True (antecedents rule) df) (\<lambda>df_antecedent.
     bind_h (filter_items_h df False (consequents rule) df_antecedent) (\<lambda>df_violation.
     bind_h (get_frame df_violation) (\<lambda>dv.
     bind_h (append_violations_h rule (rows dv) exceptions) (\<lambda>_ h'.
       rules_loop_h df rest exceptions h')))) h"

definition find_exceptions_h :: "addr \<Rightarrow> addr \<Rightarrow> heap \<Rightarrow> (error + addr) \<times> heap" where
  "find_exceptions_h df rules =
     bind_h (alloc (Gaps [])) (\<lambda>exceptions.
     bind_h (get_srules rules) (\<lambda>rs.
       rules_loop_h df rs exceptions))"

text \<open>What a run hands back: the exception raised, or the object at the returned address.\<close>

definition outcome :: "(error + addr) \<times> heap \<Rightarrow> error + obj option" where
  "outcome res = (case res of (Inl e, h) \<Rightarrow> Inl e | (Inr a, h) \<Rightarrow> Inr (objs h a))"

text \<open>Every object allocated in \<open>h\<close> is the same in \<open>h'\<close>, and nothing was deallocated.\<close>

definition unchanged :: "heap \<Rightarrow> heap \<Rightarrow> bool" where
  "unchanged h h' = (lim h \<le> lim h' \<and> (\<forall>a < lim h. objs h' a = objs h a))"

text \<open>A store with the table of E2E-2 at address 0 and its rule set at address 1.\<close>

definition e2e2_heap :: heap where
  "e2e2_heap = \<lparr>objs = [0 \<mapsto> Frame e2e2_table, 1 \<mapsto> SRules [e2e2_rule]], lim = 2\<rparr>"

text \<open>Another store with the same table and rule set, at other addresses, among other objects.\<close>

definition e2e2_heap2 :: heap where
  "e2e2_heap2 =
     \<lparr>objs = [0 \<mapsto> Gaps [], 1 \<mapsto> SRules [e2e2_rule], 2 \<mapsto> Frame untested_table,
              4 \<mapsto> Frame e2e2_table],
      lim = 7\<rparr>"

section \<open>Runs in processes with different iteration orders\<close>








text \<open>
  A rule that \<open>association_rules\<close> finds on the table of E2E-2 and the target filter drops:
  \<open>{NO_TEST} -> {NO_RISK}\<close>, support 1/3, confidence 5/6.
\<close>

definition no_test_rule :: rule where
  "no_test_rule =
     \<lparr>antecedents = [''NO_TEST''], consequents = [''NO_RISK''], support = 1 / 3,
      confidence = 5 / 6\<rparr>"

section \<open>Lemmas about find_exceptions\<close>

lemma rows_filter_items:
  "rows (filter_items df v items cur) = filter (matches df v items) (rows cur)"
proof (induction items arbitrary: cur)
  case Nil
  then show ?case by (simp add: matches_def)
next
  case (Cons i items)
  show ?case
    by (simp add: Cons.IH select_eq_def matches_def conj_commute cong: filter_cong)
qed

lemma columns_filter_items: "columns (filter_items df v items cur) = columns cur"
  by (induction items arbitrary: cur) (simp_all add: select_eq_def)

lemma append_violations_ok:
  "list_all (\<lambda>r. r ''id'' \<noteq> None) vs \<Longrightarrow>
   append_violations rule vs acc = Inr (acc @ map (gap_of rule) vs)"
  by (induction vs arbitrary: acc) (auto simp: gap_of_def)

lemma rules_loop_ok:
  "list_all (\<lambda>r. r ''id'' \<noteq> None) (rows df) \<Longrightarrow>
   rules_loop df rules acc =
     Inr (acc @ concat (map (\<lambda>rule. map (gap_of rule) (violations df rule)) rules))"
proof (induction rules arbitrary: acc)
  case Nil
  then show ?case by simp
next
  case (Cons rule rules)
  have v: "rows (filter_items df False (consequents rule)
             (filter_items df True (antecedents rule) df)) = violations df rule"
    by (simp add: rows_filter_items violations_def conj_commute)
  have ids: "list_all (\<lambda>r. r ''id'' \<noteq> None) (violations df rule)"
    using Cons.prems by (simp add: violations_def list_all_iff)
  show ?case
    by (simp add: v append_violations_ok [OF ids] Cons.IH [OF Cons.prems])
qed

lemma wf_frame_ids:
  "wf_frame df \<Longrightarrow> ''id'' \<in> set (columns df) \<Longrightarrow> list_all (\<lambda>r. r ''id'' \<noteq> None) (rows df)"
  by (fastforce simp: wf_frame_def list_all_iff dom_def)

lemma find_exceptions_violations:
  "wf_frame df \<Longrightarrow> ''id'' \<in> set (columns df) \<Longrightarrow>
   find_exceptions df rules =
     Inr (concat (map (\<lambda>rule. map (gap_of rule) (violations df rule)) rules))"
  using rules_loop_ok [OF wf_frame_ids, of df rules "[]"] by (simp add: find_exceptions_def)

lemma feature_table_wf: "feature_table df \<Longrightarrow> wf_frame df \<and> ''id'' \<in> set (columns df)"
  by (simp add: feature_table_def)

section \<open>Lemmas about the Python strings\<close>

lemma py_escape_cases:
  "py_escape q c = [c] \<and> c \<noteq> q \<and> c \<noteq> CHR 0x5C \<or> (\<exists>t. py_escape q c = CHR 0x5C # t)"
  by (simp add: py_escape_def)

lemma escape_plain_prefix:
  "concat (map (py_escape q) x) @ q # rest = p @ q # s \<Longrightarrow> q \<notin> set p \<Longrightarrow> CHR 0x5C \<notin> set p
   \<Longrightarrow> q \<noteq> CHR 0x5C \<Longrightarrow> x = p \<and> rest = s"
proof (induction x arbitrary: p)
  case Nil
  then show ?case by (cases p) auto
next
  case (Cons c cs)
  show ?case
  proof (cases p)
    case Nil
    with Cons.prems py_escape_cases [of q c] show ?thesis by auto
  next
    case (Cons a p')
    with Cons.prems py_escape_cases [of q c] have c: "py_escape q c = [c]" "c = a"
      by auto
    with Cons.prems Cons have "concat (map (py_escape q) cs) @ q # rest = p' @ q # s"
      by simp
    with Cons.IH [of p'] Cons.prems Cons have "cs = p' \<and> rest = s" by simp
    with c Cons show ?thesis by simp
  qed
qed

lemma py_repr_plain:
  assumes "py_repr x @ rest = CHR 0x27 # p @ CHR 0x27 # s"
    and "CHR 0x27 \<notin> set p" and "CHR 0x5C \<notin> set p"
  shows "x = p \<and> rest = s"
proof -
  define q where "q = (if CHR 0x27 \<in> set x \<and> CHR 0x22 \<notin> set x then CHR 0x22 else CHR 0x27)"
  have r: "py_repr x = q # concat (map (py_escape q) x) @ [q]"
    by (simp add: py_repr_def q_def Let_def)
  with assms(1) have q: "q = CHR 0x27" by simp
  with r assms(1) have "concat (map (py_escape q) x) @ q # rest = p @ q # s" by simp
  from escape_plain_prefix [OF this] assms(2,3) q show ?thesis by simp
qed

lemma py_str_frozenset_has_test:
  assumes "py_str_frozenset c = has_test_str"
  shows "c = [''HAS_TEST'']"
proof (cases c)
  case Nil
  with assms show ?thesis by (simp add: py_str_frozenset_def has_test_str_def)
next
  case (Cons x ys)
  show ?thesis
  proof (cases ys)
    case Nil
    with Cons assms have "py_repr x @ ''})'' = CHR 0x27 # ''HAS_TEST'' @ CHR 0x27 # ''})''"
      by (simp add: py_str_frozenset_def has_test_str_def)
    from py_repr_plain [OF this] Cons Nil show ?thesis by simp
  next
    case (Cons y zs)
    with \<open>c = x # ys\<close> assms
    have "py_repr x @ ('', '' @ py_join '', '' (map py_repr (y # zs)) @ ''})'')
          = CHR 0x27 # ''HAS_TEST'' @ CHR 0x27 # ''})''"
      by (simp add: py_str_frozenset_def has_test_str_def)
    from py_repr_plain [OF this] show ?thesis by simp
  qed
qed

lemma py_str_frozenset_iff: "py_str_frozenset c = has_test_str \<longleftrightarrow> c = [''HAS_TEST'']"
proof
  assume "c = [''HAS_TEST'']"
  then show "py_str_frozenset c = has_test_str"
    by (simp add: py_str_frozenset_def has_test_str_def py_repr_def py_escape_def Let_def)
qed (rule py_str_frozenset_has_test)

section \<open>Lemmas about discover_rules\<close>

lemma discover_rules_filtered:
  assumes "discover_rules df = Inr rs" and "r \<in> set rs"
  shows "consequents_str r = has_test_str \<and>
         (\<exists>dm fi rules r0. drop_columns df [''id''] = Inr dm \<and> apriori dm (1 / 100) = Inr fi \<and>
            association_rules fi (1 / 2) = Inr rules \<and> r0 \<in> set rules \<and>
            r = add_consequents_str r0)"
  using assms
  by (auto simp: discover_rules_def Let_def split: sum.splits if_splits)

lemma discover_rules_consequents:
  assumes "discover_rules df = Inr rs" and "r \<in> set rs"
  shows "consequents r = [''HAS_TEST'']"
proof -
  from discover_rules_filtered [OF assms] obtain r0 where
    "consequents_str r = has_test_str" "r = add_consequents_str r0" by blast
  then have "py_str_frozenset (consequents r0) = has_test_str" "consequents r = consequents r0"
    by (simp_all add: add_consequents_str_def)
  with py_str_frozenset_has_test show ?thesis by simp
qed

section \<open>The scenario table\<close>

lemma e2e2_discover: "discover_rules e2e2_table = Inr [e2e2_rule]"
  by code_simp

lemma e2e2_exceptions:
  "find_exceptions e2e2_table [e2e2_rule] =
     Inr [\<lparr>gap_id = CStr ''R10'',
           violated_rule = ''Rule: IF ['' @ CHR 0x27 # ''HAS_RISK'' @ CHR 0x27 # ''] THEN [''
                             @ CHR 0x27 # ''HAS_TEST'' @ CHR 0x27 # '']'',
           gap_confidence = 9 / 10\<rparr>]"
  by code_simp

lemma e2e2_row_dom:
  "dom (e2e2_row i a b) = {''HAS_RISK'', ''HAS_TEST'', ''NO_RISK'', ''NO_TEST'', ''id''}"
  by (auto simp: e2e2_row_def)

lemma e2e2_feature_table: "feature_table e2e2_table"
  by (simp add: feature_table_def wf_frame_def e2e2_table_def e2e2_row_dom)
     (simp add: e2e2_row_def)

text \<open>
  C1.  On a feature table with a HAS_TEST column, for a rule set whose antecedent items are
  columns of the table and whose rules have the consequent HAS_TEST, find_exceptions emits
  a gap record for a rule and a row exactly when every antecedent column of the rule is
  true on the row and HAS_TEST is false on it: the result lists, rule by rule, the records
  of the rows that satisfy this condition.
\<close>

theorem find_exceptions_violation_iff:
  assumes "feature_table df" and "''HAS_TEST'' \<in> set (columns df)"
    and "\<forall>R \<in> set rules. set (antecedents R) \<subseteq> set (columns df) \<and> consequents R = [''HAS_TEST'']"
  shows "find_exceptions df rules =
           Inr (concat (map (\<lambda>R. map (gap_of R) (filter (spec_violation R) (rows df))) rules))"
proof -
  have "violations df R = filter (spec_violation R) (rows df)" if "R \<in> set rules" for R
  proof -
    from that assms(3) have a: "set (antecedents R) \<subseteq> set (columns df)"
      and c: "consequents R = [''HAS_TEST'']" by auto
    from a have "matches df True (antecedents R) r = list_all (\<lambda>a. r a = Some (CBool True)) (antecedents R)" for r
      by (auto simp: matches_def list_all_iff)
    with c assms(2) show ?thesis
      by (simp add: violations_def spec_violation_def [abs_def] matches_def)
  qed
  then have "map (\<lambda>R. map (gap_of R) (violations df R)) rules =
             map (\<lambda>R. map (gap_of R) (filter (spec_violation R) (rows df))) rules"
    by simp
  with find_exceptions_violations [of df rules] feature_table_wf [OF assms(1)]
  show ?thesis by simp
qed

theorem find_exceptions_violation_iff_witness:
  "feature_table e2e2_table \<and> ''HAS_TEST'' \<in> set (columns e2e2_table) \<and>
   set (antecedents e2e2_rule) \<subseteq> set (columns e2e2_table) \<and>
   consequents e2e2_rule = [''HAS_TEST''] \<and>
   find_exceptions e2e2_table [e2e2_rule] =
     Inr (concat (map (\<lambda>R. map (gap_of R) (filter (spec_violation R) (rows e2e2_table)))
            [e2e2_rule])) \<and>
   filter (spec_violation e2e2_rule) (rows e2e2_table) = [e2e2_row ''R10'' True False]"
proof -
  have h1: "''HAS_TEST'' \<in> set (columns e2e2_table)"
    by (simp add: e2e2_table_def)
  have h2: "\<forall>R \<in> set [e2e2_rule]. set (antecedents R) \<subseteq> set (columns e2e2_table) \<and>
       consequents R = [''HAS_TEST'']"
    by (simp add: e2e2_table_def e2e2_rule_def)
  have v: "filter (spec_violation e2e2_rule) (rows e2e2_table) = [e2e2_row ''R10'' True False]"
    by (simp add: spec_violation_def e2e2_rule_def e2e2_table_def e2e2_row_def)
  from find_exceptions_violation_iff [OF e2e2_feature_table h1 h2] e2e2_feature_table h1 h2 v
  show ?thesis by simp
qed

text \<open>
  Without the condition on the consequent the statement fails: find_exceptions filters on
  the rule's own consequent (lines 121-123).  For the rule \<open>{NO_TEST} -> {NO_RISK}\<close> on the
  table of E2E-2 it reports the one row with NO_TEST true and NO_RISK false, while six rows
  have NO_TEST true and HAS_TEST false.
\<close>

theorem find_exceptions_other_consequent_counterexample:
  "feature_table e2e2_table \<and> ''HAS_TEST'' \<in> set (columns e2e2_table) \<and>
   set (antecedents no_test_rule) \<subseteq> set (columns e2e2_table) \<and>
   find_exceptions e2e2_table [no_test_rule] \<noteq>
     Inr (concat (map (\<lambda>R. map (gap_of R) (filter (spec_violation R) (rows e2e2_table)))
            [no_test_rule])) \<and>
   (\<exists>gs. find_exceptions e2e2_table [no_test_rule] = Inr gs \<and> length gs = 1) \<and>
   length (filter (spec_violation no_test_rule) (rows e2e2_table)) = 6"
proof -
  have a: "case find_exceptions e2e2_table [no_test_rule] of
             Inl e \<Rightarrow> False | Inr gs \<Rightarrow> length gs = 1"
    by code_simp
  then obtain gs where gs: "find_exceptions e2e2_table [no_test_rule] = Inr gs" "length gs = 1"
    by (auto split: sum.splits)
  have b: "length (filter (spec_violation no_test_rule) (rows e2e2_table)) = 6"
    by code_simp
  have "length (concat (map (\<lambda>R. map (gap_of R) (filter (spec_violation R) (rows e2e2_table)))
            [no_test_rule])) = 6"
    using b by simp
  with gs have ne: "find_exceptions e2e2_table [no_test_rule] \<noteq>
     Inr (concat (map (\<lambda>R. map (gap_of R) (filter (spec_violation R) (rows e2e2_table)))
            [no_test_rule]))"
    by auto
  have c: "''HAS_TEST'' \<in> set (columns e2e2_table)"
    "set (antecedents no_test_rule) \<subseteq> set (columns e2e2_table)"
    by (simp_all add: e2e2_table_def no_test_rule_def)
  from e2e2_feature_table c ne gs b show ?thesis by blast
qed

text \<open>
  C2.  Every rule that discover_rules returns has the consequent \<open>{HAS_TEST}\<close> and
  no other.
\<close>

theorem discover_rules_target_filter:
  "discover_rules df = Inr rs \<Longrightarrow> \<forall>r \<in> set rs. consequents r = [''HAS_TEST'']"
  using discover_rules_consequents by blast

theorem discover_rules_target_filter_witness:
  "discover_rules e2e2_table = Inr [e2e2_rule] \<and> consequents e2e2_rule = [''HAS_TEST'']"
  using discover_rules_target_filter [OF e2e2_discover] e2e2_discover by simp

text \<open>
  C3.  On the table of scenario E2E-2, discover_rules returns the rule
  \<open>{HAS_RISK} -> {HAS_TEST}\<close>, whose support clears 0.01 and whose confidence is 9/10,
  and find_exceptions with that rule returns one gap record, for the row R10 with risk
  and without test.
\<close>

theorem e2e2_scenario:
  "discover_rules e2e2_table = Inr [e2e2_rule] \<and>
   antecedents e2e2_rule = [''HAS_RISK''] \<and> consequents e2e2_rule = [''HAS_TEST''] \<and>
   1 / 100 \<le> support e2e2_rule \<and> confidence e2e2_rule = 9 / 10 \<and>
   1 / 2 \<le> confidence e2e2_rule \<and>
   find_exceptions e2e2_table [e2e2_rule] = Inr [gap_of e2e2_rule (e2e2_row ''R10'' True False)] \<and>
   gap_id (gap_of e2e2_rule (e2e2_row ''R10'' True False)) = CStr ''R10''"
proof -
  have "find_exceptions e2e2_table [e2e2_rule] = Inr [gap_of e2e2_rule (e2e2_row ''R10'' True False)]"
    by code_simp
  moreover have "gap_id (gap_of e2e2_rule (e2e2_row ''R10'' True False)) = CStr ''R10''"
    by (simp add: gap_of_def e2e2_row_def)
  ultimately show ?thesis
    using e2e2_discover by (simp add: e2e2_rule_def)
qed

section \<open>Lemmas about extract_features_for_mining\<close>

lemma set_te_fit: "set (te_fit ts) = \<Union> (set ` set ts)"
  by (simp add: te_fit_def)

lemma distinct_te_fit: "distinct (te_fit ts)"
  by (simp add: te_fit_def)

lemma te_transform_lookup:
  "te_transform cols t c = (if c \<in> set cols then Some (CBool (c \<in> set t)) else None)"
  by (induction cols) (auto simp: te_transform_def)

lemma columns_extract:
  "columns (fst (extract_features_for_mining data)) = set_id_column (te_fit (map transaction data))"
  by (simp add: extract_features_for_mining_def Let_def)

lemma rows_extract:
  "rows (fst (extract_features_for_mining data)) =
     map (\<lambda>record. (te_transform (te_fit (map transaction data)) (transaction record))
                      (''id'' \<mapsto> CStr (rec_id record))) data"
  by (simp add: extract_features_for_mining_def Let_def)

lemma status_not_id: "status_domains record \<Longrightarrow> ''id'' \<notin> set (transaction record)"
  by (auto simp: status_domains_def transaction_def)

lemma extract_row_true:
  assumes "record \<in> set data" and "c \<noteq> ''id''"
  shows "((te_transform (te_fit (map transaction data)) (transaction record))
            (''id'' \<mapsto> CStr (rec_id record))) c = Some (CBool True)
         \<longleftrightarrow> c \<in> set (transaction record)"
  using assms by (auto simp: te_transform_lookup set_te_fit)

lemma code_not_other:
  "(x::string) = ''HAS_CODE'' \<or> x = ''NO_CODE'' \<Longrightarrow>
   x \<noteq> ''HAS_TEST'' \<and> x \<noteq> ''NO_TEST'' \<and> x \<noteq> ''HAS_RISK'' \<and> x \<noteq> ''NO_RISK''"
  by (elim disjE) simp_all

lemma test_not_other:
  "(x::string) = ''HAS_TEST'' \<or> x = ''NO_TEST'' \<Longrightarrow>
   x \<noteq> ''HAS_CODE'' \<and> x \<noteq> ''NO_CODE'' \<and> x \<noteq> ''HAS_RISK'' \<and> x \<noteq> ''NO_RISK''"
  by (elim disjE) simp_all

lemma risk_not_other:
  "(x::string) = ''HAS_RISK'' \<or> x = ''NO_RISK'' \<Longrightarrow>
   x \<noteq> ''HAS_CODE'' \<and> x \<noteq> ''NO_CODE'' \<and> x \<noteq> ''HAS_TEST'' \<and> x \<noteq> ''NO_TEST''"
  by (elim disjE) simp_all

lemma pair_exclusive:
  "m \<in> set t \<Longrightarrow> m = a \<or> m = b \<Longrightarrow> a \<noteq> b \<Longrightarrow> \<forall>u \<in> set t. u = m \<or> u \<noteq> a \<and> u \<noteq> b \<Longrightarrow>
   (a \<in> set t) \<noteq> (b \<in> set t)"
  by auto

lemma status_exclusive:
  assumes "status_domains q"
  shows "(''HAS_TEST'' \<in> set (transaction q)) \<noteq> (''NO_TEST'' \<in> set (transaction q))"
    and "(''HAS_CODE'' \<in> set (transaction q)) \<noteq> (''NO_CODE'' \<in> set (transaction q))"
    and "(''HAS_RISK'' \<in> set (transaction q)) \<noteq> (''NO_RISK'' \<in> set (transaction q))"
proof -
  from assms have ts: "test_status q = ''HAS_TEST'' \<or> test_status q = ''NO_TEST''"
    and cs: "code_status q = ''HAS_CODE'' \<or> code_status q = ''NO_CODE''"
    and rs: "risk_status q = ''HAS_RISK'' \<or> risk_status q = ''NO_RISK''"
    by (simp_all add: status_domains_def)
  note n = test_not_other [OF ts] code_not_other [OF cs] risk_not_other [OF rs]
  have s: "set (transaction q) = {test_status q, code_status q, risk_status q}"
    by (simp add: transaction_def)
  show "(''HAS_TEST'' \<in> set (transaction q)) \<noteq> (''NO_TEST'' \<in> set (transaction q))"
  proof (rule pair_exclusive [of "test_status q"])
    show "test_status q \<in> set (transaction q)" by (simp add: s)
    show "\<forall>u \<in> set (transaction q). u = test_status q \<or> u \<noteq> ''HAS_TEST'' \<and> u \<noteq> ''NO_TEST''"
      unfolding s using n by simp
  qed (use ts in simp_all)
  show "(''HAS_CODE'' \<in> set (transaction q)) \<noteq> (''NO_CODE'' \<in> set (transaction q))"
  proof (rule pair_exclusive [of "code_status q"])
    show "code_status q \<in> set (transaction q)" by (simp add: s)
    show "\<forall>u \<in> set (transaction q). u = code_status q \<or> u \<noteq> ''HAS_CODE'' \<and> u \<noteq> ''NO_CODE''"
      unfolding s using n by simp
  qed (use cs in simp_all)
  show "(''HAS_RISK'' \<in> set (transaction q)) \<noteq> (''NO_RISK'' \<in> set (transaction q))"
  proof (rule pair_exclusive [of "risk_status q"])
    show "risk_status q \<in> set (transaction q)" by (simp add: s)
    show "\<forall>u \<in> set (transaction q). u = risk_status q \<or> u \<noteq> ''HAS_RISK'' \<and> u \<noteq> ''NO_RISK''"
      unfolding s using n by simp
  qed (use rs in simp_all)
qed

lemma extract_exactly_one:
  assumes "list_all status_domains data"
    and "r \<in> set (rows (fst (extract_features_for_mining data)))"
  shows "exactly_one r ''HAS_TEST'' ''NO_TEST'' \<and> exactly_one r ''HAS_CODE'' ''NO_CODE'' \<and>
         exactly_one r ''HAS_RISK'' ''NO_RISK''"
proof -
  from assms(2) obtain q where q: "q \<in> set data"
    and r: "r = (te_transform (te_fit (map transaction data)) (transaction q))
                  (''id'' \<mapsto> CStr (rec_id q))"
    by (auto simp: rows_extract)
  from assms(1) q have d: "status_domains q" by (simp add: list_all_iff)
  have t: "r c = Some (CBool True) \<longleftrightarrow> c \<in> set (transaction q)" if "c \<noteq> ''id''" for c
    unfolding r using q that by (rule extract_row_true)
  have "r ''HAS_TEST'' = Some (CBool True) \<longleftrightarrow> ''HAS_TEST'' \<in> set (transaction q)"
    "r ''NO_TEST'' = Some (CBool True) \<longleftrightarrow> ''NO_TEST'' \<in> set (transaction q)"
    "r ''HAS_CODE'' = Some (CBool True) \<longleftrightarrow> ''HAS_CODE'' \<in> set (transaction q)"
    "r ''NO_CODE'' = Some (CBool True) \<longleftrightarrow> ''NO_CODE'' \<in> set (transaction q)"
    "r ''HAS_RISK'' = Some (CBool True) \<longleftrightarrow> ''HAS_RISK'' \<in> set (transaction q)"
    "r ''NO_RISK'' = Some (CBool True) \<longleftrightarrow> ''NO_RISK'' \<in> set (transaction q)"
    by (rule t, simp)+
  with status_exclusive [OF d] show ?thesis
    unfolding exactly_one_def by blast
qed

lemma extract_feature_table:
  assumes "list_all status_domains data"
  shows "feature_table (fst (extract_features_for_mining data))"
proof -
  let ?cols = "te_fit (map transaction data)"
  have noid: "''id'' \<notin> set ?cols"
    using assms status_not_id by (auto simp: set_te_fit list_all_iff)
  then have cols: "columns (fst (extract_features_for_mining data)) = ?cols @ [''id'']"
    by (simp add: columns_extract set_id_column_def)
  have dist: "distinct (?cols @ [''id''])"
    using noid by (simp add: distinct_te_fit)
  have dom: "dom ((te_transform ?cols t)(''id'' \<mapsto> v)) = set (?cols @ [''id''])" for t v
    by (auto simp: te_transform_lookup dom_def)
  have cells: "c = ''id'' \<or> (case ((te_transform ?cols t)(''id'' \<mapsto> v)) c of
                   Some (CBool b) \<Rightarrow> True | _ \<Rightarrow> False)"
    if "c \<in> set (?cols @ [''id''])" for c t v
    using that by (auto simp: te_transform_lookup)
  show ?thesis
    unfolding feature_table_def wf_frame_def cols rows_extract
    using dist dom cells by (simp add: list_all_iff)
qed

lemma e2e4_domains: "list_all status_domains e2e4_data"
  by (simp add: e2e4_data_def requirement_def status_domains_def)

section \<open>The scenario tables\<close>

lemma e2e1_domains: "list_all status_domains e2e1_data"
  by (simp add: e2e1_data_def requirement_def status_domains_def)


lemma e2e1_feature_table: "feature_table e2e1_table"
  unfolding e2e1_table_def using e2e1_domains by (rule extract_feature_table)




lemma e2e1_discover: "discover_rules e2e1_table = Inr []"
  by code_simp






lemma length_filter_concat:
  "length (filter P (concat xss)) = sum_list (map (\<lambda>xs. length (filter P xs)) xss)"
  by (induction xss) simp_all


text \<open>
  C5.  When the three status fields of every query record are in their two-valued domains,
  every row of the table built by extract_features_for_mining has exactly one of the two
  columns of each status pair true.
\<close>

theorem extract_features_exclusive:
  assumes "list_all status_domains data"
  shows "list_all (\<lambda>r. exactly_one r ''HAS_TEST'' ''NO_TEST'' \<and>
                       exactly_one r ''HAS_CODE'' ''NO_CODE'' \<and>
                       exactly_one r ''HAS_RISK'' ''NO_RISK'')
           (rows (fst (extract_features_for_mining data)))"
  using extract_exactly_one [OF assms] by (simp add: list_all_iff)

theorem extract_features_exclusive_witness:
  "list_all status_domains e2e4_data \<and>
   list_all (\<lambda>r. exactly_one r ''HAS_TEST'' ''NO_TEST'' \<and>
                 exactly_one r ''HAS_CODE'' ''NO_CODE'' \<and>
                 exactly_one r ''HAS_RISK'' ''NO_RISK'')
     (rows (fst (extract_features_for_mining e2e4_data))) \<and>
   length (rows (fst (extract_features_for_mining e2e4_data))) = 3"
  using extract_features_exclusive [OF e2e4_domains] e2e4_domains
  by (simp add: rows_extract) (simp add: e2e4_data_def)





section \<open>Lemmas about the frequent itemsets and the rules\<close>

lemma contains_all_mono: "set a \<subseteq> set k \<Longrightarrow> contains_all k r \<Longrightarrow> contains_all a r"
  by (auto simp: contains_all_def list_all_iff)

lemma itemset_support_antimono:
  assumes "set a \<subseteq> set k"
  shows "itemset_support df k \<le> itemset_support df a"
proof (cases "rows df = []")
  case True
  then show ?thesis by (simp add: itemset_support_def)
next
  case False
  have "length (filter (contains_all k) (rows df)) \<le> length (filter (contains_all a) (rows df))"
  proof -
    have "filter (contains_all k) (rows df) = filter (contains_all k) (filter (contains_all a) (rows df))"
      using contains_all_mono [OF assms] by (auto intro: filter_cong)
    then show ?thesis by (metis length_filter_le)
  qed
  with False show ?thesis
    by (simp add: itemset_support_def divide_right_mono)
qed

lemma itemset_support_set: "set a = set k \<Longrightarrow> itemset_support df a = itemset_support df k"
  by (simp add: itemset_support_antimono order_antisym)

lemma itemset_support_nonneg: "0 \<le> itemset_support df k"
  by (simp add: itemset_support_def)

lemma apriori_member:
  assumes "apriori df m = Inr fi"
  shows "(s, k) \<in> set fi \<longleftrightarrow>
           s = itemset_support df k \<and> k \<noteq> [] \<and> m \<le> s \<and> subseq k (columns df)"
  using assms by (auto simp: apriori_def split: if_splits)

lemma lookup_support_Some:
  assumes "apriori df m = Inr fi" and "lookup_support fi a = Some s"
  shows "s = itemset_support df a \<and> m \<le> s"
proof -
  from assms(2) obtain k where f: "find (\<lambda>(sup, k). set k = set a) fi = Some (s, k)"
    by (auto simp: lookup_support_def)
  then have "(s, k) \<in> set fi" "set k = set a"
    by (auto simp: find_Some_iff in_set_conv_nth)
  with apriori_member [OF assms(1)] itemset_support_set [of k a df] show ?thesis by simp
qed

lemma lookup_support_found:
  assumes "apriori df m = Inr fi" and "subseq a (columns df)" and "a \<noteq> []"
    and "m \<le> itemset_support df a"
  shows "\<exists>s. lookup_support fi a = Some s"
proof -
  from assms have "(itemset_support df a, a) \<in> set fi"
    by (simp add: apriori_member)
  then have "find (\<lambda>(sup, k). set k = set a) fi \<noteq> None"
    by (auto simp: find_None_iff)
  then show ?thesis by (auto simp: lookup_support_def)
qed

lemma splits_member:
  "(a, c) \<in> set (splits k) \<longleftrightarrow> subseq a k \<and> c = filter (\<lambda>x. x \<notin> set a) k \<and> a \<noteq> [] \<and> c \<noteq> []"
  by (auto simp: splits_def)

lemma collect_member:
  "collect f xs = Inr ys \<Longrightarrow> y \<in> set ys \<Longrightarrow> \<exists>x \<in> set xs. \<exists>zs. f x = Inr zs \<and> y \<in> set zs"
proof (induction xs arbitrary: ys)
  case Nil
  then show ?case by simp
next
  case (Cons x xs)
  then show ?case by (fastforce split: sum.splits)
qed

lemma collect_total:
  "(\<And>x. x \<in> set xs \<Longrightarrow> \<exists>zs. f x = Inr zs) \<Longrightarrow> \<exists>ys. collect f xs = Inr ys"
proof (induction xs)
  case Nil
  then show ?case by simp
next
  case (Cons x xs)
  from Cons.prems [of x] obtain zs where "f x = Inr zs" by auto
  moreover from Cons.IH Cons.prems obtain ys where "collect f xs = Inr ys" by auto
  ultimately show ?case by simp
qed

lemma association_rules_member:
  assumes "association_rules fi t = Inr rules" and "r \<in> set rules"
  shows "\<exists>sAC k sA. (sAC, k) \<in> set fi \<and> (antecedents r, consequents r) \<in> set (splits k) \<and>
           lookup_support fi (antecedents r) = Some sA \<and> sA \<noteq> 0 \<and> t \<le> sAC / sA \<and>
           support r = sAC \<and> confidence r = sAC / sA"
proof -
  from assms(1) have c: "collect (\<lambda>(sAC, k). collect (rule_of_split fi t sAC) (splits k))
             (filter (\<lambda>(sAC, k). 2 \<le> length k) fi) = Inr rules"
    by (simp add: association_rules_def split: if_splits)
  from collect_member [OF c assms(2)] obtain sAC k zs where
    m: "(sAC, k) \<in> set fi" and z: "collect (rule_of_split fi t sAC) (splits k) = Inr zs"
    and r: "r \<in> set zs" by auto
  from collect_member [OF z r] obtain ac ws where
    ac: "ac \<in> set (splits k)" and w: "rule_of_split fi t sAC ac = Inr ws" and rw: "r \<in> set ws"
    by auto
  from w rw obtain sA where "lookup_support fi (fst ac) = Some sA" "sA \<noteq> 0" "t \<le> sAC / sA"
    "r = \<lparr>antecedents = fst ac, consequents = snd ac, support = sAC, confidence = sAC / sA\<rparr>"
    by (auto simp: rule_of_split_def split: option.splits if_splits)
  with m ac show ?thesis by auto
qed

lemma association_rules_bounds:
  assumes "apriori df m = Inr fi" and "0 < m" and "association_rules fi t = Inr rules"
    and "r \<in> set rules"
  shows "m \<le> support r \<and> 0 \<le> confidence r \<and> confidence r \<le> 1 \<and> t \<le> confidence r"
proof -
  from association_rules_member [OF assms(3,4)] obtain sAC k sA where
    m: "(sAC, k) \<in> set fi" and sp: "(antecedents r, consequents r) \<in> set (splits k)"
    and l: "lookup_support fi (antecedents r) = Some sA" and t: "t \<le> sAC / sA"
    and s: "support r = sAC" and c: "confidence r = sAC / sA" by blast
  from m apriori_member [OF assms(1)] have k: "sAC = itemset_support df k" "m \<le> sAC" by auto
  from lookup_support_Some [OF assms(1) l] have a: "sA = itemset_support df (antecedents r)" "m \<le> sA"
    by auto
  from sp have "set (antecedents r) \<subseteq> set k"
    by (auto simp: splits_member dest: list_emb_set)
  from itemset_support_antimono [OF this, of df] k a have le: "sAC \<le> sA" by simp
  from a assms(2) have pos: "0 < sA" by simp
  from k assms(2) have "0 \<le> sAC" by simp
  with pos le have "0 \<le> sAC / sA" "sAC / sA \<le> 1" by simp_all
  with k s c t show ?thesis by simp
qed

lemma rule_of_split_total:
  assumes "apriori df m = Inr fi" and "0 < m" and "(sAC, k) \<in> set fi" and "ac \<in> set (splits k)"
  shows "\<exists>zs. rule_of_split fi t sAC ac = Inr zs"
proof -
  from assms(3) apriori_member [OF assms(1)]
  have k: "m \<le> itemset_support df k" "subseq k (columns df)" by auto
  from assms(4) have a: "subseq (fst ac) k" "fst ac \<noteq> []"
    and c: "snd ac = filter (\<lambda>x. x \<notin> set (fst ac)) k" "snd ac \<noteq> []"
    using splits_member [of "fst ac" "snd ac" k] by auto
  from a(1) have "set (fst ac) \<subseteq> set k" by (auto dest: list_emb_set)
  from itemset_support_antimono [OF this, of df] k(1)
  have sa: "m \<le> itemset_support df (fst ac)" by simp
  from c(1) have "set (snd ac) \<subseteq> set k" by auto
  from itemset_support_antimono [OF this, of df] k(1)
  have sc: "m \<le> itemset_support df (snd ac)" by simp
  from a(1) k(2) have suba: "subseq (fst ac) (columns df)"
    by (rule subseq_order.trans)
  from c(1) have "subseq (snd ac) k" by simp
  with k(2) have subc: "subseq (snd ac) (columns df)"
    by (metis subseq_order.trans)
  from lookup_support_found [OF assms(1) suba a(2) sa] obtain sA where
    la: "lookup_support fi (fst ac) = Some sA" by blast
  from lookup_support_found [OF assms(1) subc c(2) sc] obtain sC where
    lc: "lookup_support fi (snd ac) = Some sC" by blast
  from lookup_support_Some [OF assms(1) la] assms(2) have "sA \<noteq> 0" by auto
  with la lc show ?thesis by (simp add: rule_of_split_def)
qed

lemma association_rules_total:
  assumes "apriori df m = Inr fi" and "0 < m" and "fi \<noteq> []"
  shows "\<exists>rules. association_rules fi t = Inr rules"
proof -
  have "\<exists>zs. (\<lambda>(sAC, k). collect (rule_of_split fi t sAC) (splits k)) x = Inr zs"
    if "x \<in> set (filter (\<lambda>(sAC, k). 2 \<le> length k) fi)" for x
  proof -
    obtain sAC k where x: "x = (sAC, k)" by (cases x)
    with that have "(sAC, k) \<in> set fi" by simp
    then have "\<exists>zs. collect (rule_of_split fi t sAC) (splits k) = Inr zs"
      by (intro collect_total rule_of_split_total [OF assms(1,2)])
    with x show ?thesis by simp
  qed
  then have "\<exists>ys. collect (\<lambda>(sAC, k). collect (rule_of_split fi t sAC) (splits k))
                 (filter (\<lambda>(sAC, k). 2 \<le> length k) fi) = Inr ys"
    by (rule collect_total)
  with assms(3) show ?thesis by (simp add: association_rules_def)
qed

lemma drop_id_boolean:
  assumes "feature_table df"
  shows "\<exists>dm. drop_columns df [''id''] = Inr dm \<and> all_boolean dm \<and>
           (rows df = [] \<longrightarrow> rows dm = [])"
proof -
  let ?dm = "\<lparr>columns = filter (\<lambda>c. c \<notin> set [''id'']) (columns df),
              rows = map (\<lambda>r. r |` (- set [''id''])) (rows df)\<rparr>"
  from assms have d: "drop_columns df [''id''] = Inr ?dm"
    by (simp add: drop_columns_def feature_table_def)
  from assms have "all_boolean ?dm"
    by (auto simp: all_boolean_def feature_table_def list_all_iff)
  with d show ?thesis by simp
qed

lemma apriori_no_rows:
  "all_boolean dm \<Longrightarrow> rows dm = [] \<Longrightarrow> 0 < m \<Longrightarrow> apriori dm m = Inr []"
  by (simp add: apriori_def itemset_support_def filter_empty_conv)

lemma apriori_total: "all_boolean dm \<Longrightarrow> \<exists>fi. apriori dm m = Inr fi"
  by (simp add: apriori_def)

lemma discover_rules_total:
  assumes "feature_table df"
  shows "\<exists>rs. discover_rules df = Inr rs"
proof -
  from drop_id_boolean [OF assms] obtain dm where
    dm: "drop_columns df [''id''] = Inr dm" "all_boolean dm" by blast
  from apriori_total [OF dm(2)] obtain fi where fi: "apriori dm (1 / 100) = Inr fi" by blast
  show ?thesis
  proof (cases "fi = []")
    case True
    with dm fi show ?thesis by (simp add: discover_rules_def)
  next
    case False
    from association_rules_total [OF fi _ False, of "1 / 2"] obtain rules where
      "association_rules fi (1 / 2) = Inr rules" by auto
    with dm fi False show ?thesis by (simp add: discover_rules_def Let_def)
  qed
qed

lemma discover_rules_no_rows:
  assumes "feature_table df" and "rows df = []"
  shows "discover_rules df = Inr []"
proof -
  from drop_id_boolean [OF assms(1)] assms(2) obtain dm where
    dm: "drop_columns df [''id''] = Inr dm" "all_boolean dm" "rows dm = []" by blast
  from apriori_no_rows [OF dm(2,3), of "1 / 100"] dm(1) show ?thesis
    by (simp add: discover_rules_def)
qed

lemma discover_rules_no_survivor:
  assumes "drop_columns df [''id''] = Inr dm" and "apriori dm (1 / 100) = Inr fi"
    and "association_rules fi (1 / 2) = Inr rules"
    and "list_all (\<lambda>r. consequents r \<noteq> [''HAS_TEST'']) rules"
  shows "discover_rules df = Inr []"
proof -
  from assms(4) have "filter (\<lambda>r. consequents_str r = has_test_str) (map add_consequents_str rules) = []"
    by (auto simp: filter_empty_conv list_all_iff add_consequents_str_def py_str_frozenset_iff)
  with assms(1-3) show ?thesis by (simp add: discover_rules_def Let_def)
qed

lemma empty_feature_table: "feature_table empty_table"
  unfolding empty_table_def by (rule extract_feature_table) simp

lemma empty_rows: "rows empty_table = []"
  by (simp add: empty_table_def rows_extract)

lemma e2e1_candidates:
  "\<exists>dm fi rules. drop_columns e2e1_table [''id''] = Inr dm \<and> apriori dm (1 / 100) = Inr fi \<and>
     association_rules fi (1 / 2) = Inr rules \<and> rules \<noteq> [] \<and>
     list_all (\<lambda>r. consequents r \<noteq> [''HAS_TEST'']) rules"
proof -
  have "case drop_columns e2e1_table [''id''] of
          Inl e \<Rightarrow> False
        | Inr dm \<Rightarrow>
            (case apriori dm (1 / 100) of
               Inl e \<Rightarrow> False
             | Inr fi \<Rightarrow>
                 (case association_rules fi (1 / 2) of
                    Inl e \<Rightarrow> False
                  | Inr rules \<Rightarrow>
                      rules \<noteq> [] \<and> list_all (\<lambda>r. consequents r \<noteq> [''HAS_TEST'']) rules))"
    by code_simp
  then show ?thesis by (auto split: sum.splits)
qed

text \<open>
  C4.  Every rule that discover_rules returns has support at least 0.01 and a confidence
  between 0 and 1 that is at least 0.5.
\<close>

theorem discover_rules_thresholds:
  assumes "discover_rules df = Inr rs"
  shows "\<forall>r \<in> set rs. 1 / 100 \<le> support r \<and> 0 \<le> confidence r \<and> confidence r \<le> 1 \<and>
           1 / 2 \<le> confidence r"
proof
  fix r assume "r \<in> set rs"
  from discover_rules_filtered [OF assms this] obtain dm fi rules r0 where
    a: "apriori dm (1 / 100) = Inr fi" and b: "association_rules fi (1 / 2) = Inr rules"
    and r0: "r0 \<in> set rules" and r: "r = add_consequents_str r0" by blast
  from association_rules_bounds [OF a _ b r0] r
  show "1 / 100 \<le> support r \<and> 0 \<le> confidence r \<and> confidence r \<le> 1 \<and> 1 / 2 \<le> confidence r"
    by (simp add: add_consequents_str_def)
qed

theorem discover_rules_thresholds_witness:
  "discover_rules e2e2_table = Inr [e2e2_rule] \<and> 1 / 100 \<le> support e2e2_rule \<and>
   0 \<le> confidence e2e2_rule \<and> confidence e2e2_rule \<le> 1 \<and> 1 / 2 \<le> confidence e2e2_rule \<and>
   confidence e2e2_rule = 9 / 10"
  using discover_rules_thresholds [OF e2e2_discover] e2e2_discover
  by (simp add: e2e2_rule_def)

text \<open>
  C6.  Empty results are values, not exceptions.  On a feature table discover_rules never
  raises; it returns the empty rule set when the table has no rows, when no itemset clears
  the support threshold, and when no rule has the consequent HAS_TEST; find_exceptions with
  an empty rule set returns the empty list.
\<close>

theorem empty_results_not_errors:
  assumes "feature_table df"
  shows "(\<exists>rs. discover_rules df = Inr rs) \<and>
         (rows df = [] \<longrightarrow> discover_rules df = Inr []) \<and>
         (\<forall>dm. drop_columns df [''id''] = Inr dm \<and> apriori dm (1 / 100) = Inr [] \<longrightarrow>
               discover_rules df = Inr []) \<and>
         (\<forall>dm fi rules. drop_columns df [''id''] = Inr dm \<and> apriori dm (1 / 100) = Inr fi \<and>
               association_rules fi (1 / 2) = Inr rules \<and>
               list_all (\<lambda>r. consequents r \<noteq> [''HAS_TEST'']) rules \<longrightarrow>
               discover_rules df = Inr []) \<and>
         find_exceptions df ([] :: srule list) = Inr []"
proof (intro conjI allI impI)
  show "\<exists>rs. discover_rules df = Inr rs" using assms by (rule discover_rules_total)
  show "discover_rules df = Inr []" if "rows df = []"
    using assms that by (rule discover_rules_no_rows)
  show "discover_rules df = Inr []"
    if "drop_columns df [''id''] = Inr dm \<and> apriori dm (1 / 100) = Inr []" for dm
    using that by (simp add: discover_rules_def)
  show "discover_rules df = Inr []"
    if "drop_columns df [''id''] = Inr dm \<and> apriori dm (1 / 100) = Inr fi \<and>
        association_rules fi (1 / 2) = Inr rules \<and>
        list_all (\<lambda>r. consequents r \<noteq> [''HAS_TEST'']) rules" for dm fi rules
    using that discover_rules_no_survivor by blast
  show "find_exceptions df ([] :: srule list) = Inr []"
    by (simp add: find_exceptions_def)
qed

theorem empty_results_not_errors_witness:
  "feature_table empty_table \<and> rows empty_table = [] \<and> discover_rules empty_table = Inr [] \<and>
   find_exceptions empty_table ([] :: srule list) = Inr [] \<and>
   feature_table e2e1_table \<and>
   (\<exists>dm fi rules. drop_columns e2e1_table [''id''] = Inr dm \<and> apriori dm (1 / 100) = Inr fi \<and>
      association_rules fi (1 / 2) = Inr rules \<and> rules \<noteq> [] \<and>
      list_all (\<lambda>r. consequents r \<noteq> [''HAS_TEST'']) rules) \<and>
   discover_rules e2e1_table = Inr []"
proof -
  from empty_results_not_errors [OF empty_feature_table] empty_rows
  have e: "discover_rules empty_table = Inr []"
    "find_exceptions empty_table ([] :: srule list) = Inr []" by simp_all
  from e2e1_candidates obtain dm fi rules where
    c: "drop_columns e2e1_table [''id''] = Inr dm \<and> apriori dm (1 / 100) = Inr fi \<and>
        association_rules fi (1 / 2) = Inr rules \<and>
        list_all (\<lambda>r. consequents r \<noteq> [''HAS_TEST'']) rules" by blast
  from empty_results_not_errors [OF e2e1_feature_table] c
  have "discover_rules e2e1_table = Inr []" by blast
  with e empty_feature_table empty_rows e2e1_feature_table e2e1_candidates
  show ?thesis by simp
qed

section \<open>Lemmas about the store\<close>

lemma unchanged_refl: "unchanged h h"
  by (simp add: unchanged_def)

lemma unchanged_trans: "unchanged h h1 \<Longrightarrow> unchanged h1 h2 \<Longrightarrow> unchanged h h2"
  by (auto simp: unchanged_def)

lemma bind_h_Inr: "m h = (Inr x, h1) \<Longrightarrow> bind_h m f h = f x h1"
  by (simp add: bind_h_def)

lemma bind_h_Inl: "m h = (Inl e, h1) \<Longrightarrow> bind_h m f h = (Inl e, h1)"
  by (simp add: bind_h_def)

lemma get_frame_Some: "objs h a = Some (Frame d) \<Longrightarrow> get_frame a h = (Inr d, h)"
  by (simp add: get_frame_def)

lemma get_gaps_Some: "objs h a = Some (Gaps gs) \<Longrightarrow> get_gaps a h = (Inr gs, h)"
  by (simp add: get_gaps_def)

lemma get_srules_Some: "objs h a = Some (SRules rs) \<Longrightarrow> get_srules a h = (Inr rs, h)"
  by (simp add: get_srules_def)

lemma alloc_props:
  "alloc v h = (Inr (lim h), h\<lparr>objs := (objs h)(lim h \<mapsto> v), lim := Suc (lim h)\<rparr>)"
  "unchanged h (snd (alloc v h))"
  by (simp_all add: alloc_def unchanged_def)

text \<open>The antecedent and consequent loops allocate frames and change no allocated object.\<close>

lemma filter_items_h_correct:
  assumes "objs h df = Some (Frame d)" and "objs h cur = Some (Frame c)"
    and "df < lim h" and "cur < lim h"
  shows "\<exists>cur' h'. filter_items_h df v items cur h = (Inr cur', h') \<and>
           objs h' cur' = Some (Frame (filter_items d v items c)) \<and> cur' < lim h' \<and>
           unchanged h h'"
  using assms
proof (induction items arbitrary: cur c h)
  case Nil
  then show ?case by (simp add: unchanged_refl)
next
  case (Cons item items)
  show ?case
  proof (cases "item \<in> set (columns d)")
    case False
    with Cons.prems have "filter_items_h df v (item # items) cur h = filter_items_h df v items cur h"
      by (simp add: bind_h_Inr [OF get_frame_Some])
    with Cons.IH [OF Cons.prems] False show ?thesis by simp
  next
    case True
    let ?h1 = "h\<lparr>objs := (objs h)(lim h \<mapsto> Frame (select_eq c item v)), lim := Suc (lim h)\<rparr>"
    from True Cons.prems
    have e: "filter_items_h df v (item # items) cur h = filter_items_h df v items (lim h) ?h1"
      by (simp add: bind_h_def get_frame_def alloc_def)
    have u: "unchanged h ?h1" by (simp add: unchanged_def)
    from Cons.prems have p: "objs ?h1 df = Some (Frame d)"
      "objs ?h1 (lim h) = Some (Frame (select_eq c item v))" "df < lim ?h1" "lim h < lim ?h1"
      by simp_all
    from Cons.IH [OF p] obtain cur' h' where
      r: "filter_items_h df v items (lim h) ?h1 = (Inr cur', h')"
      "objs h' cur' = Some (Frame (filter_items d v items (select_eq c item v)))"
      "cur' < lim h'" "unchanged ?h1 h'" by blast
    from unchanged_trans [OF u r(4)] r e True show ?thesis by simp
  qed
qed

text \<open>Appending changes the list object and nothing else.\<close>

lemma append_violations_h_correct:
  assumes "objs h ex = Some (Gaps gs)"
  shows "\<exists>r h'. append_violations_h rule vs ex h = (r, h') \<and> lim h' = lim h \<and>
           (\<forall>a. a \<noteq> ex \<longrightarrow> objs h' a = objs h a) \<and>
           (case r of
              Inl e \<Rightarrow> append_violations rule vs gs = Inl e \<and> (\<exists>gs'. objs h' ex = Some (Gaps gs'))
            | Inr u \<Rightarrow> \<exists>gs'. append_violations rule vs gs = Inr gs' \<and> objs h' ex = Some (Gaps gs'))"
  using assms
proof (induction vs arbitrary: gs h)
  case Nil
  then show ?case by simp
next
  case (Cons violation rest)
  show ?case
  proof (cases "violation ''id''")
    case None
    with Cons.prems show ?thesis by simp
  next
    case (Some i)
    let ?g = "\<lparr>gap_id = i, violated_rule = rule_text (antecedents rule) (consequents rule),
               gap_confidence = confidence rule\<rparr>"
    let ?h1 = "h\<lparr>objs := (objs h)(ex \<mapsto> Gaps (gs @ [?g]))\<rparr>"
    from Some Cons.prems
    have e: "append_violations_h rule (violation # rest) ex h = append_violations_h rule rest ex ?h1"
      by (simp add: bind_h_def get_gaps_def put_def)
    have "objs ?h1 ex = Some (Gaps (gs @ [?g]))" by simp
    from Cons.IH [OF this] obtain r h' where
      r: "append_violations_h rule rest ex ?h1 = (r, h')" "lim h' = lim ?h1"
      "\<forall>a. a \<noteq> ex \<longrightarrow> objs h' a = objs ?h1 a"
      "case r of
         Inl e \<Rightarrow> append_violations rule rest (gs @ [?g]) = Inl e \<and> (\<exists>gs'. objs h' ex = Some (Gaps gs'))
       | Inr u \<Rightarrow> \<exists>gs'. append_violations rule rest (gs @ [?g]) = Inr gs' \<and> objs h' ex = Some (Gaps gs')"
      by blast
    with e Some show ?thesis by (cases r) simp_all
  qed
qed

lemma rules_loop_h_correct:
  assumes "objs h df = Some (Frame d)" and "objs h ex = Some (Gaps gs)"
    and "df < lim h" and "ex < lim h"
  shows "\<exists>r h'. rules_loop_h df rules ex h = (r, h') \<and> lim h \<le> lim h' \<and>
           (\<forall>a < lim h. a \<noteq> ex \<longrightarrow> objs h' a = objs h a) \<and>
           (case r of
              Inl e \<Rightarrow> rules_loop d rules gs = Inl e
            | Inr a \<Rightarrow> a = ex \<and> (\<exists>gs'. rules_loop d rules gs = Inr gs' \<and>
                                       objs h' ex = Some (Gaps gs')))"
  using assms
proof (induction rules arbitrary: gs h)
  case Nil
  then show ?case by simp
next
  case (Cons rule rest)
  let ?da = "filter_items d True (antecedents rule) d"
  let ?dv = "filter_items d False (consequents rule) ?da"
  from filter_items_h_correct [OF Cons.prems(1) Cons.prems(1) Cons.prems(3) Cons.prems(3)]
  obtain a1 h1 where s1: "filter_items_h df True (antecedents rule) df h = (Inr a1, h1)"
    "objs h1 a1 = Some (Frame ?da)" "a1 < lim h1" "unchanged h h1" by blast
  from s1(4) Cons.prems have p1: "objs h1 df = Some (Frame d)" "df < lim h1"
    "objs h1 ex = Some (Gaps gs)" "ex < lim h1"
    by (auto simp: unchanged_def)
  from filter_items_h_correct [OF p1(1) s1(2) p1(2) s1(3)]
  obtain a2 h2 where s2: "filter_items_h df False (consequents rule) a1 h1 = (Inr a2, h2)"
    "objs h2 a2 = Some (Frame ?dv)" "a2 < lim h2" "unchanged h1 h2" by blast
  from s2(4) p1 have p2: "objs h2 df = Some (Frame d)" "df < lim h2"
    "objs h2 ex = Some (Gaps gs)" "ex < lim h2"
    by (auto simp: unchanged_def)
  from unchanged_trans [OF s1(4) s2(4)] have u2: "unchanged h h2" .
  from append_violations_h_correct [OF p2(3), of rule "rows ?dv"]
  obtain r3 h3 where s3: "append_violations_h rule (rows ?dv) ex h2 = (r3, h3)"
    "lim h3 = lim h2" "\<forall>a. a \<noteq> ex \<longrightarrow> objs h3 a = objs h2 a"
    "case r3 of
       Inl e \<Rightarrow> append_violations rule (rows ?dv) gs = Inl e \<and> (\<exists>gs'. objs h3 ex = Some (Gaps gs'))
     | Inr u \<Rightarrow> \<exists>gs'. append_violations rule (rows ?dv) gs = Inr gs' \<and> objs h3 ex = Some (Gaps gs')"
    by blast
  have step: "rules_loop_h df (rule # rest) ex h =
      (case r3 of Inl e \<Rightarrow> (Inl e, h3) | Inr u \<Rightarrow> rules_loop_h df rest ex h3)"
    using s1(1) s2(1) s2(2) s3(1)
    by (simp add: bind_h_def get_frame_def split: sum.splits)
  have fr3: "\<forall>a < lim h. a \<noteq> ex \<longrightarrow> objs h3 a = objs h a"
    using u2 s3(3) by (auto simp: unchanged_def)
  have l3: "lim h \<le> lim h3" using u2 s3(2) by (simp add: unchanged_def)
  show ?case
  proof (cases r3)
    case (Inl e)
    with s3(4) step fr3 l3 show ?thesis by (simp add: Let_def)
  next
    case (Inr u)
    with s3(4) obtain gs' where g: "append_violations rule (rows ?dv) gs = Inr gs'"
      "objs h3 ex = Some (Gaps gs')" by auto
    from Cons.prems(1,2) have "df \<noteq> ex" by auto
    with s3(3) p2 s3(2) have p3: "objs h3 df = Some (Frame d)" "df < lim h3" "ex < lim h3"
      by simp_all
    from Cons.IH [OF p3(1) g(2) p3(2) p3(3)] obtain r h' where
      r: "rules_loop_h df rest ex h3 = (r, h')" "lim h3 \<le> lim h'"
      "\<forall>a < lim h3. a \<noteq> ex \<longrightarrow> objs h' a = objs h3 a"
      "case r of
         Inl e \<Rightarrow> rules_loop d rest gs' = Inl e
       | Inr a \<Rightarrow> a = ex \<and> (\<exists>gs''. rules_loop d rest gs' = Inr gs'' \<and>
                                  objs h' ex = Some (Gaps gs''))"
      by blast
    have fr: "\<forall>a < lim h. a \<noteq> ex \<longrightarrow> objs h' a = objs h a"
      using r(3) fr3 l3 by auto
    have l: "lim h \<le> lim h'" using l3 r(2) by simp
    have pure: "rules_loop d (rule # rest) gs = rules_loop d rest gs'"
      using g(1) by (simp add: Let_def)
    have run: "rules_loop_h df (rule # rest) ex h = (r, h')"
      by (simp only: step Inr sum.case r(1))
    have res: "case r of
         Inl e \<Rightarrow> rules_loop d (rule # rest) gs = Inl e
       | Inr a \<Rightarrow> a = ex \<and> (\<exists>gs''. rules_loop d (rule # rest) gs = Inr gs'' \<and>
                                  objs h' ex = Some (Gaps gs''))"
      using r(4) by (simp only: pure)
    from run l fr res show ?thesis by blast
  qed
qed

lemma find_exceptions_h_correct:
  assumes "objs h df = Some (Frame d)" and "objs h rules = Some (SRules rs)"
    and "df < lim h" and "rules < lim h"
  shows "\<exists>r h'. find_exceptions_h df rules h = (r, h') \<and> unchanged h h' \<and>
           (case r of
              Inl e \<Rightarrow> find_exceptions d rs = Inl e
            | Inr a \<Rightarrow> \<exists>gs. find_exceptions d rs = Inr gs \<and> objs h' a = Some (Gaps gs))"
proof -
  let ?h1 = "h\<lparr>objs := (objs h)(lim h \<mapsto> Gaps []), lim := Suc (lim h)\<rparr>"
  from assms have e: "find_exceptions_h df rules h = rules_loop_h df rs (lim h) ?h1"
    by (simp add: find_exceptions_h_def bind_h_def alloc_def get_srules_def)
  from assms have p: "objs ?h1 df = Some (Frame d)" "objs ?h1 (lim h) = Some (Gaps [])"
    "df < lim ?h1" "lim h < lim ?h1" by simp_all
  from rules_loop_h_correct [OF p, of rs] obtain r h' where
    r: "rules_loop_h df rs (lim h) ?h1 = (r, h')" "lim ?h1 \<le> lim h'"
    "\<forall>a < lim ?h1. a \<noteq> lim h \<longrightarrow> objs h' a = objs ?h1 a"
    "case r of
       Inl e \<Rightarrow> rules_loop d rs [] = Inl e
     | Inr a \<Rightarrow> a = lim h \<and> (\<exists>gs'. rules_loop d rs [] = Inr gs' \<and>
                                   objs h' (lim h) = Some (Gaps gs'))"
    by blast
  from r(2,3) have "unchanged h h'" by (auto simp: unchanged_def)
  with e r(1,4) show ?thesis
    by (cases r) (auto simp: find_exceptions_def)
qed

lemma discover_rules_h_correct:
  assumes "objs h df = Some (Frame d)" and "df < lim h"
  shows "\<exists>r h'. discover_rules_h df h = (r, h') \<and> unchanged h h' \<and>
           (case r of
              Inl e \<Rightarrow> discover_rules d = Inl e
            | Inr a \<Rightarrow> \<exists>rs. discover_rules d = Inr rs \<and> objs h' a = Some (SRules rs))"
  using assms
  by (auto simp: discover_rules_h_def discover_rules_def bind_h_def lift_h_def alloc_def put_def
      get_frame_def get_itemsets_def get_rules_def get_srules_def unchanged_def Let_def
      split: sum.splits)

lemma outcome_discover_rules_h:
  assumes "objs h df = Some (Frame d)" and "df < lim h"
  shows "outcome (discover_rules_h df h) = map_sum id (\<lambda>rs. Some (SRules rs)) (discover_rules d)"
proof -
  from discover_rules_h_correct [OF assms] obtain r h' where
    "discover_rules_h df h = (r, h')"
    "case r of
       Inl e \<Rightarrow> discover_rules d = Inl e
     | Inr a \<Rightarrow> \<exists>rs. discover_rules d = Inr rs \<and> objs h' a = Some (SRules rs)"
    by blast
  then show ?thesis by (cases r) (auto simp: outcome_def)
qed

lemma outcome_find_exceptions_h:
  assumes "objs h df = Some (Frame d)" and "objs h rules = Some (SRules rs)"
    and "df < lim h" and "rules < lim h"
  shows "outcome (find_exceptions_h df rules h) =
           map_sum id (\<lambda>gs. Some (Gaps gs)) (find_exceptions d rs)"
proof -
  from find_exceptions_h_correct [OF assms] obtain r h' where
    "find_exceptions_h df rules h = (r, h')"
    "case r of
       Inl e \<Rightarrow> find_exceptions d rs = Inl e
     | Inr a \<Rightarrow> \<exists>gs. find_exceptions d rs = Inr gs \<and> objs h' a = Some (Gaps gs)"
    by blast
  then show ?thesis by (cases r) (auto simp: outcome_def)
qed

lemma unchanged_discover_rules_h:
  assumes "objs h df = Some (Frame d)" and "df < lim h"
  shows "unchanged h (snd (discover_rules_h df h))"
  using discover_rules_h_correct [OF assms] by auto

lemma unchanged_find_exceptions_h:
  assumes "objs h df = Some (Frame d)" and "objs h rules = Some (SRules rs)"
    and "df < lim h" and "rules < lim h"
  shows "unchanged h (snd (find_exceptions_h df rules h))"
  using find_exceptions_h_correct [OF assms] by auto

lemma unchanged_lookup: "unchanged h h' \<Longrightarrow> a < lim h \<Longrightarrow> objs h' a = objs h a \<and> a < lim h'"
  by (auto simp: unchanged_def)

lemma e2e2_heap_objs:
  "objs e2e2_heap 0 = Some (Frame e2e2_table)" "objs e2e2_heap 1 = Some (SRules [e2e2_rule])"
  "0 < lim e2e2_heap" "1 < lim e2e2_heap"
  by (simp_all add: e2e2_heap_def)

lemma e2e2_heap2_objs:
  "objs e2e2_heap2 4 = Some (Frame e2e2_table)" "objs e2e2_heap2 1 = Some (SRules [e2e2_rule])"
  "4 < lim e2e2_heap2" "1 < lim e2e2_heap2"
  by (simp_all add: e2e2_heap2_def)

text \<open>
  C9.  Neither discover_rules nor find_exceptions modifies its input: after either call every
  object that was allocated before it is the same, so the table (all rows and columns,
  the identifier column too) is unchanged, and find_exceptions leaves the rule set
  unchanged.
\<close>

theorem mining_leaves_inputs_unchanged:
  assumes "objs h df = Some (Frame d)" and "objs h rules = Some (SRules rs)"
    and "df < lim h" and "rules < lim h"
  shows "unchanged h (snd (discover_rules_h df h)) \<and>
         objs (snd (discover_rules_h df h)) df = Some (Frame d) \<and>
         unchanged h (snd (find_exceptions_h df rules h)) \<and>
         objs (snd (find_exceptions_h df rules h)) df = Some (Frame d) \<and>
         objs (snd (find_exceptions_h df rules h)) rules = Some (SRules rs)"
proof -
  note u1 = unchanged_discover_rules_h [OF assms(1,3)]
  note u2 = unchanged_find_exceptions_h [OF assms]
  from unchanged_lookup [OF u1 assms(3)] unchanged_lookup [OF u2 assms(3)]
    unchanged_lookup [OF u2 assms(4)] u1 u2 assms(1,2)
  show ?thesis by simp
qed

theorem mining_leaves_inputs_unchanged_witness:
  "objs e2e2_heap 0 = Some (Frame e2e2_table) \<and> objs e2e2_heap 1 = Some (SRules [e2e2_rule]) \<and>
   0 < lim e2e2_heap \<and> 1 < lim e2e2_heap \<and>
   unchanged e2e2_heap (snd (discover_rules_h 0 e2e2_heap)) \<and>
   objs (snd (discover_rules_h 0 e2e2_heap)) 0 = Some (Frame e2e2_table) \<and>
   unchanged e2e2_heap (snd (find_exceptions_h 0 1 e2e2_heap)) \<and>
   objs (snd (find_exceptions_h 0 1 e2e2_heap)) 0 = Some (Frame e2e2_table) \<and>
   objs (snd (find_exceptions_h 0 1 e2e2_heap)) 1 = Some (SRules [e2e2_rule]) \<and>
   outcome (discover_rules_h 0 e2e2_heap) = Inr (Some (SRules [e2e2_rule]))"
  using mining_leaves_inputs_unchanged [OF e2e2_heap_objs] e2e2_heap_objs
    outcome_discover_rules_h [OF e2e2_heap_objs(1,3)] e2e2_discover
  by simp

text \<open>
  Within one process the outcome of either function depends on the values of the table and
  of the rule set alone, whatever else the store holds, also after an earlier run.
\<close>

lemma store_runs_agree:
  assumes "objs h1 df1 = Some (Frame d)" and "objs h1 rules1 = Some (SRules rs)"
    and "df1 < lim h1" and "rules1 < lim h1"
    and "objs h2 df2 = Some (Frame d)" and "objs h2 rules2 = Some (SRules rs)"
    and "df2 < lim h2" and "rules2 < lim h2"
  shows "outcome (discover_rules_h df1 h1) = outcome (discover_rules_h df2 h2) \<and>
         outcome (find_exceptions_h df1 rules1 h1) = outcome (find_exceptions_h df2 rules2 h2) \<and>
         outcome (discover_rules_h df1 (snd (discover_rules_h df1 h1))) =
           outcome (discover_rules_h df1 h1) \<and>
         outcome (find_exceptions_h df1 rules1 (snd (find_exceptions_h df1 rules1 h1))) =
           outcome (find_exceptions_h df1 rules1 h1)"
proof -
  note u1 = unchanged_discover_rules_h [OF assms(1,3)]
  note u2 = unchanged_find_exceptions_h [OF assms(1-4)]
  from unchanged_lookup [OF u1 assms(3)] assms(1)
  have a: "objs (snd (discover_rules_h df1 h1)) df1 = Some (Frame d)"
    "df1 < lim (snd (discover_rules_h df1 h1))" by simp_all
  from unchanged_lookup [OF u2 assms(3)] unchanged_lookup [OF u2 assms(4)] assms(1,2)
  have b: "objs (snd (find_exceptions_h df1 rules1 h1)) df1 = Some (Frame d)"
    "objs (snd (find_exceptions_h df1 rules1 h1)) rules1 = Some (SRules rs)"
    "df1 < lim (snd (find_exceptions_h df1 rules1 h1))"
    "rules1 < lim (snd (find_exceptions_h df1 rules1 h1))" by simp_all
  show ?thesis
    by (simp only: outcome_discover_rules_h [OF assms(1,3)] outcome_discover_rules_h [OF assms(5,7)]
        outcome_find_exceptions_h [OF assms(1-4)] outcome_find_exceptions_h [OF assms(5-8)]
        outcome_discover_rules_h [OF a] outcome_find_exceptions_h [OF b] simp_thms)
qed

section \<open>Lemmas about iteration orders\<close>




















end
